theory Spec2Isabelle
  imports Complex_Main
begin

section \<open>The board and the win-line table of \<open>App.js\<close>\<close>

text \<open>
  The game lives in one React component, \<open>App\<close>. A board is a JavaScript array whose
  cells are \<open>null\<close>, \<open>'O'\<close> (the human, P1) or \<open>'X'\<close> (the computer, P2).
  A cell is modelled as \<open>mark option\<close> with \<open>None\<close> for \<open>null\<close>.
\<close>

datatype mark = MarkO | MarkX

type_synonym cell = "mark option"

type_synonym board = "cell list"

text \<open>
  \<open>squares[i]\<close> read for its truth value or compared with a mark. Out of range
  JavaScript yields \<open>undefined\<close>, which is falsy and equal to no mark, as \<open>null\<close> is;
  both are \<open>None\<close> here. Where the source tests \<open>=== null\<close>, which \<open>undefined\<close> fails,
  the model uses \<open>is_null\<close> instead.
\<close>

definition cell_at :: "board \<Rightarrow> nat \<Rightarrow> cell" where
  "cell_at squares i = (if i < length squares then squares ! i else None)"

definition is_null :: "board \<Rightarrow> nat \<Rightarrow> bool" where
  "is_null squares i = (i < length squares \<and> squares ! i = None)"

text \<open>The object \<open>{ winner: squares[a], line: lines[i] }\<close> returned by \<open>calculateWinner\<close>.\<close>

record winner_info =
  wi_winner :: mark
  wi_line :: "nat list"

text \<open>The constant \<open>lines\<close> of \<open>calculateWinner\<close>.\<close>

definition lines :: "nat list list" where
  "lines =
    [[0, 1, 2],
     [3, 4, 5],
     [6, 7, 8],
     [0, 3, 6],
     [1, 4, 7],
     [2, 5, 8],
     [0, 4, 8],
     [2, 4, 6]]"

text \<open>
  The \<open>for\<close> loop of \<open>calculateWinner\<close> over the remaining lines. The test
  \<open>squares[a] && squares[a] === squares[b] && squares[a] === squares[c]\<close> holds when
  \<open>squares[a]\<close> is a mark and the other two cells hold the same mark; the loop returns at
  the first line that passes it.
\<close>

fun scan_lines :: "board \<Rightarrow> nat list list \<Rightarrow> winner_info option" where
  "scan_lines squares [] = None"
| "scan_lines squares (l # rest) =
     (let a = l ! 0; b = l ! 1; c = l ! 2 in
      case cell_at squares a of
        None \<Rightarrow> scan_lines squares rest
      | Some m \<Rightarrow>
          if cell_at squares a = cell_at squares b \<and> cell_at squares a = cell_at squares c
          then Some \<lparr>wi_winner = m, wi_line = l\<rparr>
          else scan_lines squares rest)"

definition calculateWinner :: "board \<Rightarrow> winner_info option" where
  "calculateWinner squares = scan_lines squares lines"

section \<open>The component state\<close>

text \<open>
  The seven \<open>useState\<close> variables of \<open>App\<close>. \<open>xIsNext\<close> is false when it is the
  human's turn (\<open>'O'\<close>) and true when it is the computer's (\<open>'X'\<close>). \<open>gameAnalysis\<close> is a
  string; \<open>None\<close> stands for \<open>undefined\<close>, which it receives when the first part of a
  response has no \<open>text\<close> field.
\<close>

record app_state =
  board :: board
  xIsNext :: bool
  winner :: "mark option"
  isDraw :: bool
  gameAnalysis :: "string option"
  isLoadingAnalysis :: bool
  winningLine :: "nat list option"

definition initial_state :: app_state where
  "initial_state =
     \<lparr>board = replicate 9 None,
      xIsNext = False,
      winner = None,
      isDraw = False,
      gameAnalysis = Some [],
      isLoadingAnalysis = False,
      winningLine = None\<rparr>"

text \<open>
  The assignment \<open>arr[i] = v\<close>. In range it replaces the cell; past the end JavaScript
  extends the array. The cells skipped by an extension are holes; they are written
  \<open>None\<close> here, which is exact when \<open>i\<close> is the length of the array (no hole).
\<close>

definition array_set :: "board \<Rightarrow> nat \<Rightarrow> cell \<Rightarrow> board" where
  "array_set arr i v =
     (if i < length arr then arr[i := v]
      else arr @ replicate (i - length arr) None @ [v])"

section \<open>The human move: \<open>handleClick\<close>\<close>

definition handleClick :: "nat \<Rightarrow> app_state \<Rightarrow> app_state" where
  "handleClick i s =
     (if winner s \<noteq> None \<or> isDraw s \<or> cell_at (board s) i \<noteq> None \<or> xIsNext s then s
      else
        let newBoard = array_set (board s) i (Some MarkO)
        in s\<lparr>board := newBoard, xIsNext := True\<rparr>)"

section \<open>The computer move: \<open>makeComputerMove\<close>\<close>

text \<open>
  \<open>newBoard.map((val, idx) => val === null ? idx : null).filter(val => val !== null)\<close>:
  the intermediate array holds an index or \<open>null\<close> per cell, the filter keeps the indices.
\<close>

definition availableSquares :: "board \<Rightarrow> nat list" where
  "availableSquares newBoard =
     map the
       (filter (\<lambda>val. val \<noteq> None)
         (map (\<lambda>(idx, val). if val = None then Some idx else None) (enumerate 0 newBoard)))"

text \<open>
  The loops of strategies 1 and 2, which differ in the mark only: put the mark on a copy of
  the board at each available square in turn and stop at the first square where
  \<open>calculateWinner(tempBoard)?.winner\<close> is that mark. \<open>None\<close> is \<open>bestMove\<close> left at
  \<open>-1\<close>.
\<close>

fun try_squares :: "mark \<Rightarrow> board \<Rightarrow> nat list \<Rightarrow> nat option" where
  "try_squares m newBoard [] = None"
| "try_squares m newBoard (sq # rest) =
     (let tempBoard = array_set newBoard sq (Some m) in
      if map_option wi_winner (calculateWinner tempBoard) = Some m then Some sq
      else try_squares m newBoard rest)"

text \<open>The loop of strategy 4 over \<open>corners\<close>.\<close>

fun first_null :: "board \<Rightarrow> nat list \<Rightarrow> nat option" where
  "first_null newBoard [] = None"
| "first_null newBoard (c # rest) =
     (if is_null newBoard c then Some c else first_null newBoard rest)"

text \<open>
  \<open>availableSquares[Math.floor(Math.random() * availableSquares.length)]\<close>, with the value
  of \<open>Math.random()\<close> as the parameter \<open>random\<close>; JavaScript draws it from \<open>[0, 1)\<close>. The
  product and the floor are taken over the reals. A read outside the array is
  \<open>undefined\<close>, written \<open>None\<close>.
\<close>

definition random_square :: "nat list \<Rightarrow> real \<Rightarrow> nat option" where
  "random_square squares random =
     (let k = \<lfloor>random * real (length squares)\<rfloor> in
      if 0 \<le> k \<and> nat k < length squares then Some (squares ! nat k) else None)"

text \<open>
  The value of \<open>bestMove\<close> when the five strategies have run, \<open>None\<close> being \<open>-1\<close> while
  they run. Strategy 5 always assigns, so a final \<open>None\<close> is the \<open>undefined\<close> of an
  out-of-range draw.
\<close>

definition bestMove :: "board \<Rightarrow> real \<Rightarrow> nat option" where
  "bestMove newBoard random =
     (let avail = availableSquares newBoard;
          best1 = try_squares MarkX newBoard avail;
          best2 = (if best1 = None then try_squares MarkO newBoard avail else best1);
          best3 = (if best2 = None \<and> is_null newBoard 4 then Some 4 else best2);
          best4 = (if best3 = None then first_null newBoard [0, 2, 6, 8] else best3);
          best5 = (if best4 = None then random_square avail random else best4)
      in best5)"

text \<open>
  \<open>makeComputerMove(currentBoard)\<close>: the board is the argument, not the state's board
  (the effect passes the board of the render that scheduled the move). Assigning at
  \<open>undefined\<close> changes no cell.
\<close>

definition makeComputerMove :: "board \<Rightarrow> real \<Rightarrow> app_state \<Rightarrow> app_state" where
  "makeComputerMove currentBoard random s =
     (let newBoard = currentBoard in
      if length (availableSquares newBoard) = 0 then s
      else
        case bestMove newBoard random of
          Some i \<Rightarrow> s\<lparr>board := array_set newBoard i (Some MarkX), xIsNext := False\<rparr>
        | None \<Rightarrow> s\<lparr>board := newBoard, xIsNext := False\<rparr>)"

section \<open>Reset and the status effect\<close>

definition resetGame :: "app_state \<Rightarrow> app_state" where
  "resetGame s =
     s\<lparr>board := replicate 9 None,
       xIsNext := False,
       winner := None,
       isDraw := False,
       gameAnalysis := Some [],
       isLoadingAnalysis := False,
       winningLine := None\<rparr>"

text \<open>
  The effect that runs when \<open>board\<close> or \<open>xIsNext\<close> changed. It returns the updated state
  and, when it calls \<open>setTimeout(() => makeComputerMove(board), 500)\<close>, the board the
  computer move is scheduled for.
\<close>

definition useEffect :: "app_state \<Rightarrow> app_state \<times> board option" where
  "useEffect s =
     (case calculateWinner (board s) of
        Some winnerInfo \<Rightarrow>
          (s\<lparr>winner := Some (wi_winner winnerInfo), winningLine := Some (wi_line winnerInfo)\<rparr>,
           None)
      | None \<Rightarrow>
          if None \<notin> set (board s) then (s\<lparr>isDraw := True\<rparr>, None)
          else if xIsNext s then (s, Some (board s))
          else (s, None))"

section \<open>The status line: \<open>getStatus\<close>\<close>

definition mark_text :: "mark \<Rightarrow> string" where
  "mark_text m = (case m of MarkO \<Rightarrow> ''O'' | MarkX \<Rightarrow> ''X'')"

definition getStatus :: "app_state \<Rightarrow> string" where
  "getStatus s =
     (case winner s of
        Some w \<Rightarrow> ''Winner: '' @ mark_text w
      | None \<Rightarrow>
          if isDraw s then ''It's a Draw!''
          else if xIsNext s then ''Computer's turn (X)'' else ''Your turn (O)'')"

section \<open>The analysis call: \<open>getLLMGameAnalysis\<close>\<close>

text \<open>
  The parsed body of the response, as far as the handler reads it:
  \<open>result.candidates[0].content.parts[0].text\<close>. Every field may be absent
  (\<open>undefined\<close>, written \<open>None\<close>).
\<close>

record part =
  part_text :: "string option"

record content =
  content_parts :: "part list option"

record candidate =
  candidate_content :: "content option"

record gen_result =
  result_candidates :: "candidate list option"

text \<open>
  What the \<open>try\<close> block meets: \<open>Thrown\<close> when \<open>fetch\<close> or \<open>response.json()\<close>
  rejects (any exception in the block reaches the \<open>catch\<close>), \<open>Parsed\<close> with the body
  otherwise.
\<close>

datatype response = Thrown | Parsed gen_result

definition unexpected_message :: string where
  "unexpected_message = ''Could not get analysis. Unexpected response from LLM.''"

definition failed_message :: string where
  "failed_message = ''Failed to get game analysis. Please try again later.''"

text \<open>
  The two \<open>set\<close> calls before the request is sent. The prompt built from the board and
  the outcome goes into the request only and never into the state.
\<close>

definition analysis_start :: "app_state \<Rightarrow> app_state" where
  "analysis_start s = s\<lparr>isLoadingAnalysis := True, gameAnalysis := Some []\<rparr>"

text \<open>
  The \<open>try\<close>/\<open>catch\<close>/\<open>finally\<close> once the request has settled. The condition
  \<open>result.candidates && result.candidates.length > 0 && result.candidates[0].content &&
  result.candidates[0].content.parts && result.candidates[0].content.parts.length > 0\<close>
  is the chain of cases; \<open>finally\<close> clears the loading flag on every path.
\<close>

definition analysis_settle :: "response \<Rightarrow> app_state \<Rightarrow> app_state" where
  "analysis_settle r s =
     (let s' =
        (case r of
           Thrown \<Rightarrow> s\<lparr>gameAnalysis := Some failed_message\<rparr>
         | Parsed result \<Rightarrow>
            (case result_candidates result of
               Some (c # cs) \<Rightarrow>
                 (case candidate_content c of
                    Some ct \<Rightarrow>
                      (case content_parts ct of
                         Some (p # ps) \<Rightarrow> s\<lparr>gameAnalysis := part_text p\<rparr>
                       | _ \<Rightarrow> s\<lparr>gameAnalysis := Some unexpected_message\<rparr>)
                  | None \<Rightarrow> s\<lparr>gameAnalysis := Some unexpected_message\<rparr>)
             | _ \<Rightarrow> s\<lparr>gameAnalysis := Some unexpected_message\<rparr>))
      in s'\<lparr>isLoadingAnalysis := False\<rparr>)"

definition getLLMGameAnalysis :: "response \<Rightarrow> app_state \<Rightarrow> app_state" where
  "getLLMGameAnalysis r s = analysis_settle r (analysis_start s)"

text \<open>
  The analysis paragraph of the render:
  \<open>{gameAnalysis && !isLoadingAnalysis && (<p>"{gameAnalysis}"</p>)}\<close>.
\<close>

definition shown_analysis :: "app_state \<Rightarrow> string option" where
  "shown_analysis s =
     (case gameAnalysis s of
        Some t \<Rightarrow> if t \<noteq> [] \<and> \<not> isLoadingAnalysis s then Some t else None
      | None \<Rightarrow> None)"

section \<open>Events\<close>

text \<open>
  What the page holds besides the component state: the timers the effect has set and that
  have not fired yet, each with the board its callback closed over, in the order they
  were set (they all wait 500 ms, so they fire in that order), and the number of analysis
  requests that have not settled. Nothing in \<open>App.js\<close> clears a timer: the effect returns
  no cleanup, and \<open>resetGame\<close> calls the seven setters only.
\<close>

record runtime =
  component :: app_state
  timers :: "board list"
  requests :: nat

definition initial_runtime :: runtime where
  "initial_runtime = \<lparr>component = initial_state, timers = [], requests = 0\<rparr>"

text \<open>
  The call that mounts \<open>App\<close> is not part of \<open>App.js\<close>, so the kind of root is a
  parameter. It decides how the two setters at the end of \<open>makeComputerMove\<close>, which run
  in a timer and not in a React event handler, are applied: a root made by \<open>createRoot\<close>
  batches them into one render; a legacy root renders after each, and the effect of the
  first render runs before the second setter takes hold.
\<close>

datatype root = BatchingRoot | LegacyRoot

definition scheduled :: "board option \<Rightarrow> board list" where
  "scheduled t = (case t of None \<Rightarrow> [] | Some currentBoard \<Rightarrow> [currentBoard])"

text \<open>
  A click on square \<open>i\<close>: the handler runs, and when it has set the board the effect runs
  on the new state (a click that is refused sets nothing, so no effect follows it). The
  second component is the board of the timer the effect has set, if it has.
\<close>

definition click_event :: "nat \<Rightarrow> app_state \<Rightarrow> app_state \<times> board option" where
  "click_event i s =
     (let s' = handleClick i s in if s' = s then (s, None) else useEffect s')"

text \<open>
  A timer fires: \<open>makeComputerMove(currentBoard)\<close> runs on whatever the state is by then,
  with the board the timer was set for. With no available square it returns before any
  setter. Otherwise, under a batching root both setters are applied and the effect runs
  once; under a legacy root the effect runs on the new board with the turn as it was, and
  again when the turn has changed. The second component lists the timers these effects
  have set.
\<close>

definition timer_event ::
    "root \<Rightarrow> board \<Rightarrow> real \<Rightarrow> app_state \<Rightarrow> app_state \<times> board list" where
  "timer_event r currentBoard random s =
     (if length (availableSquares currentBoard) = 0 then (s, [])
      else
        case r of
          BatchingRoot \<Rightarrow>
            (let (s', t) = useEffect (makeComputerMove currentBoard random s)
             in (s', scheduled t))
        | LegacyRoot \<Rightarrow>
            (let moved = makeComputerMove currentBoard random s;
                 (s1, t1) = useEffect (s\<lparr>board := board moved\<rparr>);
                 (s2, t2) =
                   (if xIsNext s1 then useEffect (s1\<lparr>xIsNext := False\<rparr>) else (s1, None))
             in (s2, scheduled t1 @ scheduled t2)))"

text \<open>
  The events of a session. \<open>TimerFires\<close> carries the value \<open>Math.random()\<close> returns in
  that call. The analysis button is rendered when the game is over and is disabled while
  a request is loading; \<open>AnalysisSettles\<close> is the end of a request that was sent.
\<close>

datatype event =
    Click nat
  | TimerFires real
  | ResetClick
  | AnalysisClick
  | AnalysisSettles response

fun step :: "root \<Rightarrow> runtime \<Rightarrow> event \<Rightarrow> runtime" where
  "step r rt (Click i) =
     (let (s', t) = click_event i (component rt)
      in rt\<lparr>component := s', timers := timers rt @ scheduled t\<rparr>)"
| "step r rt (TimerFires random) =
     (case timers rt of
        [] \<Rightarrow> rt
      | currentBoard # later \<Rightarrow>
          (let (s', ts) = timer_event r currentBoard random (component rt)
           in rt\<lparr>component := s', timers := later @ ts\<rparr>))"
| "step r rt ResetClick =
     (let (s', t) = useEffect (resetGame (component rt))
      in rt\<lparr>component := s', timers := timers rt @ scheduled t\<rparr>)"
| "step r rt AnalysisClick =
     (let s = component rt in
      if (winner s \<noteq> None \<or> isDraw s) \<and> \<not> isLoadingAnalysis s
      then rt\<lparr>component := analysis_start s, requests := Suc (requests rt)\<rparr>
      else rt)"
| "step r rt (AnalysisSettles response) =
     (if 0 < requests rt
      then rt\<lparr>component := analysis_settle response (component rt),
              requests := requests rt - 1\<rparr>
      else rt)"

fun run :: "root \<Rightarrow> runtime \<Rightarrow> event list \<Rightarrow> runtime" where
  "run r rt [] = rt"
| "run r rt (e # es) = run r (step r rt e) es"

text \<open>
  The side that moves in a step, if one does: \<open>'O'\<close> when the click is accepted, \<open>'X'\<close>
  when a timer fires for a board with an available square, which \<open>makeComputerMove\<close>
  then marks.
\<close>

fun mover :: "runtime \<Rightarrow> event \<Rightarrow> mark option" where
  "mover rt (Click i) =
     (if handleClick i (component rt) = component rt then None else Some MarkO)"
| "mover rt (TimerFires random) =
     (case timers rt of
        [] \<Rightarrow> None
      | currentBoard # later \<Rightarrow>
          if length (availableSquares currentBoard) = 0 then None else Some MarkX)"
| "mover rt ResetClick = None"
| "mover rt AnalysisClick = None"
| "mover rt (AnalysisSettles response) = None"

fun movers :: "root \<Rightarrow> runtime \<Rightarrow> event list \<Rightarrow> mark list" where
  "movers r rt [] = []"
| "movers r rt (e # es) =
     (case mover rt e of Some m \<Rightarrow> [m] | None \<Rightarrow> []) @ movers r (step r rt e) es"

definition side_to_move :: "app_state \<Rightarrow> mark" where
  "side_to_move s = (if xIsNext s then MarkX else MarkO)"

definition other_side :: "mark \<Rightarrow> mark" where
  "other_side m = (case m of MarkO \<Rightarrow> MarkX | MarkX \<Rightarrow> MarkO)"

text \<open>A list of movers in which the sides take turns, \<open>m\<close> first.\<close>

fun alternates :: "mark \<Rightarrow> mark list \<Rightarrow> bool" where
  "alternates m [] = True"
| "alternates m (x # xs) = (x = m \<and> alternates (other_side m) xs)"

definition is_reset :: "event \<Rightarrow> bool" where
  "is_reset e = (case e of ResetClick \<Rightarrow> True | _ \<Rightarrow> False)"

text \<open>
  The pending timers are the one the effect would set on the present state: none when it
  is not the computer's turn or the game is over, else one, for the present board.
\<close>

definition timers_current :: "runtime \<Rightarrow> bool" where
  "timers_current rt = (timers rt = scheduled (snd (useEffect (component rt))))"

text \<open>The game part of the state, which the analysis call only reads.\<close>

definition frame_kept :: "app_state \<Rightarrow> app_state \<Rightarrow> bool" where
  "frame_kept s s' =
     (board s' = board s \<and> xIsNext s' = xIsNext s \<and> winner s' = winner s \<and>
      isDraw s' = isDraw s \<and> winningLine s' = winningLine s)"

section \<open>The specification's wording\<close>

subsection \<open>The win evaluation as the specification words it\<close>

text \<open>
  The specification's table, rows, then columns, then diagonals, and its rule: the first
  line in table order whose three indices hold the same non-empty mark decides, with that
  mark and that line; no such line means no winner.
\<close>

definition spec_win_lines :: "nat list list" where
  "spec_win_lines =
    [[0, 1, 2], [3, 4, 5], [6, 7, 8], [0, 3, 6], [1, 4, 7], [2, 5, 8], [0, 4, 8], [2, 4, 6]]"

definition holds_mark :: "board \<Rightarrow> mark \<Rightarrow> nat list \<Rightarrow> bool" where
  "holds_mark b m l = (\<forall>i \<in> set l. i < length b \<and> b ! i = Some m)"

definition line_mark :: "board \<Rightarrow> nat list \<Rightarrow> mark option" where
  "line_mark b l =
     (if holds_mark b MarkO l then Some MarkO
      else if holds_mark b MarkX l then Some MarkX
      else None)"

definition spec_evaluate_win :: "board \<Rightarrow> winner_info option" where
  "spec_evaluate_win b =
     (case find (\<lambda>l. line_mark b l \<noteq> None) spec_win_lines of
        None \<Rightarrow> None
      | Some l \<Rightarrow> map_option (\<lambda>m. \<lparr>wi_winner = m, wi_line = l\<rparr>) (line_mark b l))"

subsection \<open>The opponent policy as the specification words it\<close>

text \<open>
  The specification's cascade: (1) the first empty index, in ascending order, where P2's
  mark would make the evaluation report a win for P2; (2) the same with P1's mark;
  (3) index 4 if it is empty; (4) the first empty index among 0, 2, 6, 8 in that order;
  (5) any one of the remaining empty indices. \<open>spec_candidates\<close> lists the indices the
  cascade allows: one index under strategies 1 to 4, every empty index under strategy 5.
\<close>

definition empty_indices :: "board \<Rightarrow> nat list" where
  "empty_indices b = filter (\<lambda>i. b ! i = None) [0..<length b]"

definition spec_wins :: "mark \<Rightarrow> board \<Rightarrow> nat \<Rightarrow> bool" where
  "spec_wins m b i = (map_option wi_winner (spec_evaluate_win (b[i := Some m])) = Some m)"

definition spec_candidates :: "board \<Rightarrow> nat list" where
  "spec_candidates b =
     (case find (spec_wins MarkX b) (empty_indices b) of
        Some i \<Rightarrow> [i]
      | None \<Rightarrow>
         (case find (spec_wins MarkO b) (empty_indices b) of
            Some i \<Rightarrow> [i]
          | None \<Rightarrow>
              if 4 \<in> set (empty_indices b) then [4]
              else
                (case find (\<lambda>c. c \<in> set (empty_indices b)) [0, 2, 6, 8] of
                   Some c \<Rightarrow> [c]
                 | None \<Rightarrow> empty_indices b)))"

subsection \<open>Example boards\<close>

text \<open>The boards of the specification's two priority examples.\<close>

definition win_example :: board where
  "win_example = [Some MarkX, Some MarkX, None, Some MarkO, Some MarkO, None, None, None, None]"

definition block_example :: board where
  "block_example = [Some MarkO, Some MarkO, None, None, Some MarkX, None, None, None, None]"

text \<open>The boards after a first click on square 0 and on square 1.\<close>

definition first_click_0 :: board where
  "first_click_0 = [Some MarkO, None, None, None, None, None, None, None, None]"

definition first_click_1 :: board where
  "first_click_1 = [None, Some MarkO, None, None, None, None, None, None, None]"

text \<open>
  The timer a legacy root sets besides when the timer for \<open>first_click_0\<close> fires on the
  computer's turn.
\<close>

definition legacy_extra :: "root \<Rightarrow> board list" where
  "legacy_extra r =
     (case r of
        BatchingRoot \<Rightarrow> []
      | LegacyRoot \<Rightarrow> [[Some MarkO, None, None, None, Some MarkX, None, None, None, None]])"

text \<open>A full board with no complete line.\<close>

definition drawn_example :: board where
  "drawn_example =
     [Some MarkX, Some MarkO, Some MarkX,
      Some MarkX, Some MarkO, Some MarkO,
      Some MarkO, Some MarkX, Some MarkX]"

subsection \<open>The failure cases of the analysis as the specification words them\<close>

text \<open>
  No usable first textual candidate: candidates, the first candidate's content, or its
  parts are missing or empty.
\<close>

definition missing_or_empty :: "'a list option \<Rightarrow> bool" where
  "missing_or_empty xs = (case xs of None \<Rightarrow> True | Some ys \<Rightarrow> ys = [])"

definition no_usable_candidate :: "gen_result \<Rightarrow> bool" where
  "no_usable_candidate result =
     (case result_candidates result of
        Some (c # cs) \<Rightarrow>
          (case candidate_content c of
             Some ct \<Rightarrow> missing_or_empty (content_parts ct)
           | None \<Rightarrow> True)
      | cands \<Rightarrow> missing_or_empty cands)"

text \<open>The first candidate's first part, when there is one.\<close>

definition first_part :: "gen_result \<Rightarrow> part option" where
  "first_part result =
     (case result_candidates result of
        Some (c # cs) \<Rightarrow>
          (case candidate_content c of
             Some ct \<Rightarrow> (case content_parts ct of Some (p # ps) \<Rightarrow> Some p | _ \<Rightarrow> None)
           | None \<Rightarrow> None)
      | _ \<Rightarrow> None)"

text \<open>Two response bodies: one with a text part, one with no candidates.\<close>

definition text_response :: gen_result where
  "text_response =
     \<lparr>result_candidates =
        Some [\<lparr>candidate_content =
                Some \<lparr>content_parts = Some [\<lparr>part_text = Some ''Well played.''\<rparr>]\<rparr>\<rparr>]\<rparr>"

definition error_response :: gen_result where
  "error_response = \<lparr>result_candidates = None\<rparr>"

subsection \<open>Line completeness as the specification words it\<close>

definition has_complete_line :: "board \<Rightarrow> bool" where
  "has_complete_line b = (\<exists>l \<in> set spec_win_lines. line_mark b l \<noteq> None)"

section \<open>Win evaluation\<close>

lemma holds_mark_triple:
  "holds_mark b m [x, y, z] =
     (cell_at b x = Some m \<and> cell_at b y = Some m \<and> cell_at b z = Some m)"
  by (auto simp: holds_mark_def cell_at_def)

lemma line_mark_triple:
  "line_mark b [x, y, z] =
     (case cell_at b x of
        None \<Rightarrow> None
      | Some m \<Rightarrow> if cell_at b x = cell_at b y \<and> cell_at b x = cell_at b z then Some m else None)"
proof (cases "cell_at b x")
  case None
  then show ?thesis by (simp add: line_mark_def holds_mark_triple)
next
  case (Some m)
  then show ?thesis by (cases m) (auto simp: line_mark_def holds_mark_triple)
qed

lemma scan_lines_step:
  "scan_lines b ([x, y, z] # rest) =
     (case line_mark b [x, y, z] of
        None \<Rightarrow> scan_lines b rest
      | Some m \<Rightarrow> Some \<lparr>wi_winner = m, wi_line = [x, y, z]\<rparr>)"
  by (cases "cell_at b x"; cases "cell_at b y"; cases "cell_at b z")
     (auto simp: line_mark_triple)

lemma scan_lines_find:
  assumes "\<forall>l \<in> set ls. \<exists>x y z. l = [x, y, z]"
  shows "scan_lines b ls =
     (case find (\<lambda>l. line_mark b l \<noteq> None) ls of
        None \<Rightarrow> None
      | Some l \<Rightarrow> map_option (\<lambda>m. \<lparr>wi_winner = m, wi_line = l\<rparr>) (line_mark b l))"
  using assms
proof (induction ls)
  case Nil
  show ?case by simp
next
  case (Cons l ls)
  then obtain x y z where l: "l = [x, y, z]" by auto
  from Cons have IH: "scan_lines b ls =
     (case find (\<lambda>l. line_mark b l \<noteq> None) ls of
        None \<Rightarrow> None
      | Some l \<Rightarrow> map_option (\<lambda>m. \<lparr>wi_winner = m, wi_line = l\<rparr>) (line_mark b l))"
    by simp
  show ?case
    unfolding l scan_lines_step IH
    by (cases "line_mark b [x, y, z]") auto
qed

lemma availableSquares_filter: "availableSquares b = filter (\<lambda>i. b ! i = None) [0..<length b]"
proof (induction b rule: rev_induct)
  case Nil
  show ?case by (simp add: availableSquares_def enumerate_eq_zip)
next
  case (snoc x xs)
  have "filter (\<lambda>i. (xs @ [x]) ! i = None) [0..<length xs] = filter (\<lambda>i. xs ! i = None) [0..<length xs]"
    by (rule filter_cong) (auto simp: nth_append)
  with snoc show ?case
    by (auto simp: availableSquares_def enumerate_eq_zip)
qed

lemma calculateWinner_spec: "calculateWinner b = spec_evaluate_win b"
proof -
  have "\<forall>l \<in> set lines. \<exists>x y z. l = [x, y, z]"
    by (simp add: lines_def)
  then have "scan_lines b lines =
     (case find (\<lambda>l. line_mark b l \<noteq> None) lines of
        None \<Rightarrow> None
      | Some l \<Rightarrow> map_option (\<lambda>m. \<lparr>wi_winner = m, wi_line = l\<rparr>) (line_mark b l))"
    by (rule scan_lines_find)
  moreover have "lines = spec_win_lines"
    by (simp add: lines_def spec_win_lines_def)
  ultimately show ?thesis
    by (simp add: calculateWinner_def spec_evaluate_win_def)
qed

text \<open>
  C2. For every board, \<open>calculateWinner\<close> scans the eight win-lines in the table order
  rows, columns, diagonals; it returns the mark and the line of the first line whose three
  cells hold the same non-empty mark, and no winner when there is no such line.
\<close>

theorem calculateWinner_first_line:
  "lines = spec_win_lines \<and> calculateWinner b = spec_evaluate_win b"
  by (simp add: calculateWinner_spec) (simp add: lines_def spec_win_lines_def)

theorem calculateWinner_first_line_witness:
  "calculateWinner [Some MarkX, Some MarkX, Some MarkX,
                    Some MarkO, Some MarkO, Some MarkO,
                    None, None, None]
     = Some \<lparr>wi_winner = MarkX, wi_line = [0, 1, 2]\<rparr>"
  using calculateWinner_first_line
    [of "[Some MarkX, Some MarkX, Some MarkX, Some MarkO, Some MarkO, Some MarkO, None, None, None]"]
  by (simp add: spec_evaluate_win_def spec_win_lines_def line_mark_def holds_mark_def)

section \<open>The opponent policy\<close>

lemma try_squares_find:
  "try_squares m b sqs =
     find (\<lambda>sq. map_option wi_winner (calculateWinner (array_set b sq (Some m))) = Some m) sqs"
  by (induction sqs) (auto simp: Let_def)

lemma try_squares_spec:
  "try_squares m b (empty_indices b) = find (spec_wins m b) (empty_indices b)"
  unfolding try_squares_find
  by (rule find_cong)
     (auto simp: empty_indices_def spec_wins_def array_set_def calculateWinner_spec)

lemma first_null_find: "first_null b cs = find (is_null b) cs"
  by (induction cs) simp_all

lemma is_null_empty_indices: "is_null b i \<longleftrightarrow> i \<in> set (empty_indices b)"
  by (auto simp: is_null_def empty_indices_def)

lemma bestMove_cascade:
  "bestMove b random =
     (case find (spec_wins MarkX b) (empty_indices b) of
        Some i \<Rightarrow> Some i
      | None \<Rightarrow>
         (case find (spec_wins MarkO b) (empty_indices b) of
            Some i \<Rightarrow> Some i
          | None \<Rightarrow>
              if 4 \<in> set (empty_indices b) then Some 4
              else
                (case find (\<lambda>c. c \<in> set (empty_indices b)) [0, 2, 6, 8] of
                   Some c \<Rightarrow> Some c
                 | None \<Rightarrow> random_square (empty_indices b) random)))"
proof -
  have corners: "first_null b [0, 2, 6, 8] = find (\<lambda>c. c \<in> set (empty_indices b)) [0, 2, 6, 8]"
    unfolding first_null_find by (rule find_cong) (simp_all add: is_null_empty_indices)
  have avail: "availableSquares b = empty_indices b"
    by (simp add: availableSquares_filter empty_indices_def)
  show ?thesis
    unfolding bestMove_def Let_def avail try_squares_spec corners is_null_empty_indices
    by (simp split: option.splits)
qed

lemma random_square_member:
  assumes "sqs \<noteq> []" "0 \<le> random" "random < 1"
  shows "\<exists>i. random_square sqs random = Some i \<and> i \<in> set sqs"
proof -
  let ?n = "length sqs"
  let ?k = "\<lfloor>random * real ?n\<rfloor>"
  have n: "0 < real ?n" using assms(1) by simp
  have "0 \<le> random * real ?n" using assms(2) by simp
  then have k0: "0 \<le> ?k" by simp
  have "random * real ?n < real ?n" using assms(3) n by simp
  then have "?k < int ?n" by (simp add: floor_less_iff)
  with k0 have "nat ?k < ?n" by (simp add: nat_less_iff)
  with k0 show ?thesis by (simp add: random_square_def Let_def)
qed


lemma find_Some_set: "find P xs = Some x \<Longrightarrow> x \<in> set xs \<and> P x"
  by (induction xs) (auto split: if_splits)

lemma bestMove_selects:
  assumes "None \<in> set b" "0 \<le> random" "random < 1"
  shows "\<exists>i. bestMove b random = Some i \<and> i \<in> set (spec_candidates b) \<and> i \<in> set (empty_indices b)"
proof -
  from assms(1) have ne: "empty_indices b \<noteq> []"
    by (auto simp: empty_indices_def filter_empty_conv in_set_conv_nth)
  from random_square_member [OF ne assms(2,3)]
  obtain r where r: "random_square (empty_indices b) random = Some r" "r \<in> set (empty_indices b)"
    by blast
  show ?thesis
  proof (cases "find (spec_wins MarkX b) (empty_indices b)")
    case (Some i)
    then show ?thesis
      using find_Some_set [OF Some] by (simp add: bestMove_cascade spec_candidates_def)
  next
    case noX: None
    show ?thesis
    proof (cases "find (spec_wins MarkO b) (empty_indices b)")
      case (Some i)
      then show ?thesis
        using noX find_Some_set [OF Some] by (simp add: bestMove_cascade spec_candidates_def)
    next
      case noO: None
      show ?thesis
      proof (cases "4 \<in> set (empty_indices b)")
        case True
        then show ?thesis
          using noX noO by (simp add: bestMove_cascade spec_candidates_def)
      next
        case noCentre: False
        show ?thesis
        proof (cases "find (\<lambda>c. c \<in> set (empty_indices b)) [0, 2, 6, 8]")
          case (Some c)
          from find_Some_set [OF Some] have "c \<in> set (empty_indices b)" by simp
          then show ?thesis
            using noX noO noCentre Some
            by (simp only: bestMove_cascade spec_candidates_def option.case if_False)
               simp
        next
          case None
          then show ?thesis
            using noX noO noCentre r
            by (simp only: bestMove_cascade spec_candidates_def option.case if_False)
               simp
        qed
      qed
    qed
  qed
qed

lemma makeComputerMove_applies:
  assumes "None \<in> set b" "bestMove b random = Some i" "i < length b"
  shows "makeComputerMove b random s = s\<lparr>board := b[i := Some MarkX], xIsNext := False\<rparr>"
proof -
  from assms(1) have "availableSquares b \<noteq> []"
    by (auto simp: availableSquares_filter filter_empty_conv in_set_conv_nth)
  with assms(2,3) show ?thesis
    by (simp add: makeComputerMove_def array_set_def)
qed

text \<open>
  C1. For every board with at least one empty cell, and every value of \<open>Math.random()\<close>
  in \<open>[0, 1)\<close>, the square \<open>makeComputerMove\<close> plays is one the specification's cascade
  allows: the first empty index that wins for P2, else the first empty index that blocks
  P1, else the centre, else the first empty corner of 0, 2, 6, 8, else one of the remaining
  empty indices; and the move puts \<open>'X'\<close> there and hands the turn to \<open>'O'\<close>.
\<close>

theorem makeComputerMove_follows_cascade:
  assumes "None \<in> set b" and "0 \<le> random" and "random < 1"
  shows "\<exists>i. bestMove b random = Some i \<and> i \<in> set (spec_candidates b) \<and>
             makeComputerMove b random s = s\<lparr>board := b[i := Some MarkX], xIsNext := False\<rparr>"
proof -
  from bestMove_selects [OF assms]
  obtain i where i: "bestMove b random = Some i" "i \<in> set (spec_candidates b)"
    "i \<in> set (empty_indices b)" by blast
  from i(3) have "i < length b" by (simp add: empty_indices_def)
  with i assms(1) show ?thesis
    by (auto simp: makeComputerMove_applies)
qed



theorem makeComputerMove_follows_cascade_witness:
  "None \<in> set [Some MarkO, None, Some MarkX, Some MarkX, Some MarkO, Some MarkO, Some MarkO, None, Some MarkX]
   \<and> (0::real) \<le> 1 / 2 \<and> (1::real) / 2 < 1
   \<and> spec_candidates [Some MarkO, None, Some MarkX, Some MarkX, Some MarkO, Some MarkO, Some MarkO, None, Some MarkX] = [1, 7]
   \<and> bestMove [Some MarkO, None, Some MarkX, Some MarkX, Some MarkO, Some MarkO, Some MarkO, None, Some MarkX] (1 / 2) = Some 7
   \<and> board (makeComputerMove
        [Some MarkO, None, Some MarkX, Some MarkX, Some MarkO, Some MarkO, Some MarkO, None, Some MarkX]
        (1 / 2) initial_state)
      = [Some MarkO, None, Some MarkX, Some MarkX, Some MarkO, Some MarkO, Some MarkO, Some MarkX, Some MarkX]"
  using makeComputerMove_follows_cascade
    [of "[Some MarkO, None, Some MarkX, Some MarkX, Some MarkO, Some MarkO, Some MarkO, None, Some MarkX]"
        "1 / 2" initial_state]
  by (simp add: spec_candidates_def empty_indices_def spec_wins_def spec_evaluate_win_def
        spec_win_lines_def line_mark_def holds_mark_def upt_rec
        bestMove_cascade random_square_def)

text \<open>
  C6. For every board with at least one empty cell, and every value of \<open>Math.random()\<close>
  in \<open>[0, 1)\<close>, the index the policy selects holds \<open>null\<close> on the input board, under each
  of the five strategies.
\<close>

theorem bestMove_empty_square:
  assumes "None \<in> set b" and "0 \<le> random" and "random < 1"
  shows "\<exists>i. bestMove b random = Some i \<and> i < length b \<and> b ! i = None"
proof -
  from bestMove_selects [OF assms]
  obtain i where "bestMove b random = Some i" "i \<in> set (empty_indices b)" by blast
  then show ?thesis by (auto simp: empty_indices_def)
qed

theorem bestMove_empty_square_witness:
  "None \<in> set [Some MarkO, Some MarkX, Some MarkO, None, Some MarkO, None, Some MarkX, Some MarkO, Some MarkX]
   \<and> (0::real) \<le> 9 / 10 \<and> (9::real) / 10 < 1
   \<and> bestMove [Some MarkO, Some MarkX, Some MarkO, None, Some MarkO, None, Some MarkX, Some MarkO, Some MarkX] (9 / 10) = Some 5
   \<and> [Some MarkO, Some MarkX, Some MarkO, None, Some MarkO, None, Some MarkX, Some MarkO, Some MarkX] ! 5 = None"
  using bestMove_empty_square
    [of "[Some MarkO, Some MarkX, Some MarkO, None, Some MarkO, None, Some MarkX, Some MarkO, Some MarkX]" "9 / 10"]
  by (simp add: bestMove_def availableSquares_def enumerate_eq_zip upt_rec array_set_def
        calculateWinner_def lines_def cell_at_def is_null_def random_square_def Let_def)


lemmas eval_defs = availableSquares_def enumerate_eq_zip upt_rec array_set_def
  calculateWinner_def lines_def cell_at_def is_null_def Let_def

text \<open>
  C7. On the board X X - / O O - / - - - the policy selects index 2, which completes the
  line 0, 1, 2 for \<open>'X'\<close>, although index 5 would block \<open>'O'\<close>.
\<close>

theorem immediate_win_precedence:
  "bestMove win_example random = Some 2
   \<and> try_squares MarkO win_example (availableSquares win_example) = Some 5
   \<and> makeComputerMove win_example random s
      = s\<lparr>board := [Some MarkX, Some MarkX, Some MarkX, Some MarkO, Some MarkO, None, None, None, None],
          xIsNext := False\<rparr>
   \<and> calculateWinner [Some MarkX, Some MarkX, Some MarkX, Some MarkO, Some MarkO, None, None, None, None]
      = Some \<lparr>wi_winner = MarkX, wi_line = [0, 1, 2]\<rparr>"
proof -
  have avail: "availableSquares win_example = [2, 5, 6, 7, 8]"
    by (simp add: win_example_def availableSquares_def enumerate_eq_zip upt_rec)
  have win: "try_squares MarkX win_example [2, 5, 6, 7, 8] = Some 2"
    by (simp add: win_example_def eval_defs)
  have block: "try_squares MarkO win_example [2, 5, 6, 7, 8] = Some 5"
    by (simp add: win_example_def eval_defs)
  have best: "bestMove win_example random = Some 2"
    unfolding bestMove_def Let_def avail win by simp
  have move: "array_set win_example 2 (Some MarkX) =
      [Some MarkX, Some MarkX, Some MarkX, Some MarkO, Some MarkO, None, None, None, None]"
    by (simp add: win_example_def array_set_def)
  have made: "makeComputerMove win_example random s
      = s\<lparr>board := [Some MarkX, Some MarkX, Some MarkX, Some MarkO, Some MarkO, None, None, None, None],
          xIsNext := False\<rparr>"
    unfolding makeComputerMove_def Let_def avail best by (simp add: move)
  have won: "calculateWinner [Some MarkX, Some MarkX, Some MarkX, Some MarkO, Some MarkO, None, None, None, None]
      = Some \<lparr>wi_winner = MarkX, wi_line = [0, 1, 2]\<rparr>"
    by (simp add: calculateWinner_def lines_def cell_at_def)
  from best block made won show ?thesis
    by (simp only: avail simp_thms)
qed

text \<open>
  C8. On the board O O - / - X - / - - - the policy selects index 2: no square wins for
  \<open>'X'\<close>, and the blocking strategy, which runs before the centre and the corners, finds 2.
\<close>

theorem block_precedence:
  "bestMove block_example random = Some 2
   \<and> try_squares MarkX block_example (availableSquares block_example) = None
   \<and> try_squares MarkO block_example (availableSquares block_example) = Some 2
   \<and> makeComputerMove block_example random s
      = s\<lparr>board := [Some MarkO, Some MarkO, Some MarkX, None, Some MarkX, None, None, None, None],
          xIsNext := False\<rparr>"
proof -
  have avail: "availableSquares block_example = [2, 3, 5, 6, 7, 8]"
    by (simp add: block_example_def availableSquares_def enumerate_eq_zip upt_rec)
  have win: "try_squares MarkX block_example [2, 3, 5, 6, 7, 8] = None"
    by (simp add: block_example_def eval_defs)
  have block: "try_squares MarkO block_example [2, 3, 5, 6, 7, 8] = Some 2"
    by (simp add: block_example_def eval_defs)
  have best: "bestMove block_example random = Some 2"
    unfolding bestMove_def Let_def avail win block by simp
  have move: "array_set block_example 2 (Some MarkX) =
      [Some MarkO, Some MarkO, Some MarkX, None, Some MarkX, None, None, None, None]"
    by (simp add: block_example_def array_set_def)
  have made: "makeComputerMove block_example random s
      = s\<lparr>board := [Some MarkO, Some MarkO, Some MarkX, None, Some MarkX, None, None, None, None],
          xIsNext := False\<rparr>"
    unfolding makeComputerMove_def Let_def avail best by (simp add: move)
  from best win block made show ?thesis
    by (simp only: avail simp_thms)
qed

section \<open>Status evaluation\<close>

lemma calculateWinner_None_iff: "calculateWinner b = None \<longleftrightarrow> \<not> has_complete_line b"
  by (auto simp: calculateWinner_spec spec_evaluate_win_def has_complete_line_def find_None_iff
      split: option.splits dest: find_Some_set)

text \<open>
  C3. For every board, the effect run on a state whose winner and draw flags are clear
  (as they are at the start, after a reset, and whenever a move is accepted) leaves
  exactly one status: a board with a complete line sets the winner and not the draw flag,
  full or not; a full board with no complete line sets the draw flag and no winner; a
  board with no complete line and an empty cell sets neither. \<open>getStatus\<close> reads the
  matching line.
\<close>

theorem useEffect_status:
  assumes "winner s = None" and "\<not> isDraw s"
  shows "(has_complete_line (board s) \<longrightarrow>
            (\<exists>wi. calculateWinner (board s) = Some wi \<and>
                  winner (fst (useEffect s)) = Some (wi_winner wi) \<and>
                  winningLine (fst (useEffect s)) = Some (wi_line wi) \<and>
                  getStatus (fst (useEffect s)) = ''Winner: '' @ mark_text (wi_winner wi)) \<and>
            \<not> isDraw (fst (useEffect s)))
       \<and> (\<not> has_complete_line (board s) \<and> None \<notin> set (board s) \<longrightarrow>
            isDraw (fst (useEffect s)) \<and> winner (fst (useEffect s)) = None \<and>
            getStatus (fst (useEffect s)) = ''It's a Draw!'')
       \<and> (\<not> has_complete_line (board s) \<and> None \<in> set (board s) \<longrightarrow>
            \<not> isDraw (fst (useEffect s)) \<and> winner (fst (useEffect s)) = None \<and>
            getStatus (fst (useEffect s)) =
              (if xIsNext s then ''Computer's turn (X)'' else ''Your turn (O)''))"
  using assms
  by (cases "calculateWinner (board s)")
     (auto simp: useEffect_def getStatus_def calculateWinner_None_iff [symmetric])

theorem useEffect_status_witness:
  "winner (initial_state\<lparr>board := drawn_example\<rparr>) = None
   \<and> \<not> isDraw (initial_state\<lparr>board := drawn_example\<rparr>)
   \<and> \<not> has_complete_line drawn_example
   \<and> None \<notin> set drawn_example
   \<and> isDraw (fst (useEffect (initial_state\<lparr>board := drawn_example\<rparr>)))
   \<and> winner (fst (useEffect (initial_state\<lparr>board := drawn_example\<rparr>))) = None
   \<and> getStatus (fst (useEffect (initial_state\<lparr>board := drawn_example\<rparr>))) = ''It's a Draw!''"
proof -
  have a: "winner (initial_state\<lparr>board := drawn_example\<rparr>) = None"
    by (simp add: initial_state_def)
  have b: "\<not> isDraw (initial_state\<lparr>board := drawn_example\<rparr>)"
    by (simp add: initial_state_def)
  have c: "\<not> has_complete_line drawn_example"
    by (simp add: has_complete_line_def spec_win_lines_def line_mark_def holds_mark_def
        drawn_example_def)
  have d: "None \<notin> set drawn_example"
    by (simp add: drawn_example_def)
  from useEffect_status [OF a b] a b c d show ?thesis
    by simp
qed

section \<open>The human move\<close>

lemma useEffect_keeps: "board (fst (useEffect s)) = board s" "xIsNext (fst (useEffect s)) = xIsNext s"
  by (auto simp: useEffect_def split: option.splits)

lemma useEffect_schedules:
  "snd (useEffect s) = Some b \<longleftrightarrow> b = board s \<and> xIsNext s \<and> calculateWinner (board s) = None \<and> None \<in> set (board s)"
  by (auto simp: useEffect_def split: option.splits)

lemma handleClick_moves:
  "handleClick i s \<noteq> s \<longleftrightarrow> winner s = None \<and> \<not> isDraw s \<and> cell_at (board s) i = None \<and> \<not> xIsNext s"
proof
  assume "handleClick i s \<noteq> s"
  then show "winner s = None \<and> \<not> isDraw s \<and> cell_at (board s) i = None \<and> \<not> xIsNext s"
    by (auto simp: handleClick_def split: if_splits)
next
  assume a: "winner s = None \<and> \<not> isDraw s \<and> cell_at (board s) i = None \<and> \<not> xIsNext s"
  then have "xIsNext (handleClick i s)" by (simp add: handleClick_def Let_def)
  with a show "handleClick i s \<noteq> s" by auto
qed

lemma handleClick_result:
  assumes "handleClick i s \<noteq> s"
  shows "handleClick i s = s\<lparr>board := array_set (board s) i (Some MarkO), xIsNext := True\<rparr>"
  using assms by (auto simp: handleClick_def Let_def split: if_splits)

lemma click_event_refused: "handleClick i s = s \<Longrightarrow> click_event i s = (s, None)"
  by (simp only: click_event_def Let_def simp_thms if_True)

lemma click_event_accepted:
  "handleClick i s \<noteq> s \<Longrightarrow> click_event i s = useEffect (handleClick i s)"
  by (simp only: click_event_def Let_def if_not_P if_False)

text \<open>
  C4. \<open>handleClick\<close> changes nothing when the clicked cell is occupied, a winner is
  stored, the draw flag is set, or it is the computer's turn; the click event then leaves
  the state as it was and sets no timer. An
  occupied cell keeps its mark under every click. When it does move, all four guards
  held, the clicked cell was empty, it now holds \<open>'O'\<close>, every other cell is as before,
  the turn is the computer's, and for an index on the board the board keeps its length.
\<close>

theorem handleClick_guarded:
  "(winner s \<noteq> None \<or> isDraw s \<or> cell_at (board s) i \<noteq> None \<or> xIsNext s
      \<longrightarrow> handleClick i s = s \<and> click_event i s = (s, None))
   \<and> (\<forall>j. cell_at (board s) j \<noteq> None
         \<longrightarrow> cell_at (board (handleClick i s)) j = cell_at (board s) j)
   \<and> (handleClick i s \<noteq> s
      \<longrightarrow> winner s = None \<and> \<not> isDraw s \<and> cell_at (board s) i = None \<and> \<not> xIsNext s \<and>
          handleClick i s = s\<lparr>board := array_set (board s) i (Some MarkO), xIsNext := True\<rparr> \<and>
          (\<forall>j. j \<noteq> i \<longrightarrow> cell_at (board (handleClick i s)) j = cell_at (board s) j) \<and>
          (i < length (board s) \<longrightarrow> length (board (handleClick i s)) = length (board s)))"
proof -
  have noop: "winner s \<noteq> None \<or> isDraw s \<or> cell_at (board s) i \<noteq> None \<or> xIsNext s
      \<longrightarrow> handleClick i s = s \<and> click_event i s = (s, None)"
  proof
    assume "winner s \<noteq> None \<or> isDraw s \<or> cell_at (board s) i \<noteq> None \<or> xIsNext s"
    then have "handleClick i s = s"
      by (auto simp: handleClick_def)
    then show "handleClick i s = s \<and> click_event i s = (s, None)"
      using click_event_refused [of i s] by blast
  qed
  have others: "cell_at (array_set b i v) j = cell_at b j" if "j \<noteq> i" for b :: board and v j
    using that by (auto simp: cell_at_def array_set_def nth_append)
  have len: "length (array_set b i v) = length b" if "i < length b" for b :: board and v
    using that by (simp add: array_set_def)
  have moved: "board (handleClick i s) = array_set (board s) i (Some MarkO)"
    if "handleClick i s \<noteq> s"
    by (simp only: handleClick_result [OF that]) simp
  have keep: "\<forall>j. cell_at (board s) j \<noteq> None
         \<longrightarrow> cell_at (board (handleClick i s)) j = cell_at (board s) j"
  proof (intro allI impI)
    fix j
    assume occ: "cell_at (board s) j \<noteq> None"
    show "cell_at (board (handleClick i s)) j = cell_at (board s) j"
    proof (cases "handleClick i s = s")
      case True
      then show ?thesis by (simp only:)
    next
      case False
      then have "cell_at (board s) i = None"
        using handleClick_moves [of i s] by blast
      with occ have "j \<noteq> i" by auto
      then show ?thesis by (simp add: moved [OF False] others)
    qed
  qed
  have move: "handleClick i s \<noteq> s
      \<longrightarrow> winner s = None \<and> \<not> isDraw s \<and> cell_at (board s) i = None \<and> \<not> xIsNext s \<and>
          handleClick i s = s\<lparr>board := array_set (board s) i (Some MarkO), xIsNext := True\<rparr> \<and>
          (\<forall>j. j \<noteq> i \<longrightarrow> cell_at (board (handleClick i s)) j = cell_at (board s) j) \<and>
          (i < length (board s) \<longrightarrow> length (board (handleClick i s)) = length (board s))"
  proof
    assume mv: "handleClick i s \<noteq> s"
    then have g: "winner s = None \<and> \<not> isDraw s \<and> cell_at (board s) i = None \<and> \<not> xIsNext s"
      using handleClick_moves [of i s] by blast
    have r: "handleClick i s = s\<lparr>board := array_set (board s) i (Some MarkO), xIsNext := True\<rparr>"
      by (rule handleClick_result [OF mv])
    have o: "\<forall>j. j \<noteq> i \<longrightarrow> cell_at (board (handleClick i s)) j = cell_at (board s) j"
      by (simp add: moved [OF mv] others)
    have l: "i < length (board s) \<longrightarrow> length (board (handleClick i s)) = length (board s)"
      by (simp add: moved [OF mv] len)
    from g r o l
    show "winner s = None \<and> \<not> isDraw s \<and> cell_at (board s) i = None \<and> \<not> xIsNext s \<and>
          handleClick i s = s\<lparr>board := array_set (board s) i (Some MarkO), xIsNext := True\<rparr> \<and>
          (\<forall>j. j \<noteq> i \<longrightarrow> cell_at (board (handleClick i s)) j = cell_at (board s) j) \<and>
          (i < length (board s) \<longrightarrow> length (board (handleClick i s)) = length (board s))"
      by (intro conjI) blast+
  qed
  from noop keep move show ?thesis by (intro conjI)
qed

theorem handleClick_guarded_witness:
  "cell_at (board (initial_state\<lparr>board := block_example\<rparr>)) 4 \<noteq> None
   \<and> handleClick 4 (initial_state\<lparr>board := block_example\<rparr>) = initial_state\<lparr>board := block_example\<rparr>
   \<and> handleClick 2 (initial_state\<lparr>board := block_example\<rparr>) \<noteq> initial_state\<lparr>board := block_example\<rparr>
   \<and> board (handleClick 2 (initial_state\<lparr>board := block_example\<rparr>))
        = [Some MarkO, Some MarkO, Some MarkO, None, Some MarkX, None, None, None, None]"
proof -
  have occ: "cell_at (board (initial_state\<lparr>board := block_example\<rparr>)) 4 \<noteq> None"
    by (simp add: cell_at_def block_example_def)
  have free: "handleClick 2 (initial_state\<lparr>board := block_example\<rparr>) \<noteq> initial_state\<lparr>board := block_example\<rparr>"
    by (simp add: handleClick_moves initial_state_def cell_at_def block_example_def)
  have upd: "array_set block_example 2 (Some MarkO)
      = [Some MarkO, Some MarkO, Some MarkO, None, Some MarkX, None, None, None, None]"
    by (simp add: array_set_def block_example_def)
  from handleClick_guarded [of "initial_state\<lparr>board := block_example\<rparr>" 4] occ
  have a: "handleClick 4 (initial_state\<lparr>board := block_example\<rparr>) = initial_state\<lparr>board := block_example\<rparr>"
    by blast
  from handleClick_guarded [of "initial_state\<lparr>board := block_example\<rparr>" 2] free
  have "handleClick 2 (initial_state\<lparr>board := block_example\<rparr>)
      = initial_state\<lparr>board := block_example\<rparr>\<lparr>board := array_set (board (initial_state\<lparr>board := block_example\<rparr>)) 2 (Some MarkO), xIsNext := True\<rparr>"
    by blast
  then have b: "board (handleClick 2 (initial_state\<lparr>board := block_example\<rparr>))
        = [Some MarkO, Some MarkO, Some MarkO, None, Some MarkX, None, None, None, None]"
    by (simp add: upd)
  from occ a free b show ?thesis by blast
qed


section \<open>Turn alternation\<close>

lemma makeComputerMove_turn:
  assumes "None \<in> set b"
  shows "\<not> xIsNext (makeComputerMove b random s)"
proof -
  from assms have "availableSquares b \<noteq> []"
    by (auto simp: availableSquares_filter filter_empty_conv in_set_conv_nth)
  then show ?thesis
    by (simp add: makeComputerMove_def split: option.splits)
qed

lemma useEffect_in_progress:
  assumes "calculateWinner (board s) = None" and "None \<in> set (board s)"
  shows "useEffect s = (s, if xIsNext s then Some (board s) else None)"
  using assms by (simp add: useEffect_def)

lemma bestMove_centre:
  assumes "try_squares MarkX b (availableSquares b) = None"
    and "try_squares MarkO b (availableSquares b) = None"
    and "is_null b 4"
  shows "bestMove b random = Some 4"
  unfolding bestMove_def Let_def assms(1) assms(2) using assms(3) by simp

lemma useEffect_snd_cong:
  "board s' = board s \<Longrightarrow> xIsNext s' = xIsNext s \<Longrightarrow> snd (useEffect s') = snd (useEffect s)"
  by (auto simp: useEffect_def split: option.splits)

lemma useEffect_idle: "\<not> xIsNext s \<Longrightarrow> snd (useEffect s) = None"
  by (auto simp: useEffect_def split: option.splits)

lemma useEffect_again: "snd (useEffect (fst (useEffect s))) = snd (useEffect s)"
  by (rule useEffect_snd_cong) (simp_all add: useEffect_keeps)

lemma analysis_settle_keeps:
  "board (analysis_settle response s) = board s"
  "xIsNext (analysis_settle response s) = xIsNext s"
  by (auto simp: analysis_settle_def Let_def split: response.splits option.splits list.splits)

lemma timers_current_initial: "timers_current initial_runtime"
  by (simp add: timers_current_def initial_runtime_def scheduled_def useEffect_idle
      initial_state_def)

lemma step_click_refused:
  assumes "handleClick i (component rt) = component rt"
  shows "step r rt (Click i) = rt"
proof -
  from assms have "click_event i (component rt) = (component rt, None)"
    by (rule click_event_refused)
  then show ?thesis by (simp add: scheduled_def)
qed

lemma step_click_accepted:
  assumes "handleClick i (component rt) \<noteq> component rt"
  shows "step r rt (Click i) =
     rt\<lparr>component := fst (useEffect (handleClick i (component rt))),
        timers := timers rt @ scheduled (snd (useEffect (handleClick i (component rt))))\<rparr>"
proof -
  from assms have "click_event i (component rt) = useEffect (handleClick i (component rt))"
    by (rule click_event_accepted)
  then show ?thesis by (simp add: case_prod_beta)
qed

lemma step_timer_batching:
  assumes "timers rt = b # later" and "None \<in> set b"
  shows "step BatchingRoot rt (TimerFires random) =
     rt\<lparr>component := fst (useEffect (makeComputerMove b random (component rt))), timers := later\<rparr>"
proof -
  from assms(2) have "availableSquares b \<noteq> []"
    by (auto simp: availableSquares_filter filter_empty_conv in_set_conv_nth)
  moreover have "snd (useEffect (makeComputerMove b random (component rt))) = None"
    by (rule useEffect_idle) (rule makeComputerMove_turn [OF assms(2)])
  ultimately show ?thesis
    using assms(1) by (simp add: timer_event_def case_prod_beta scheduled_def)
qed

lemma current_timer:
  assumes "timers_current rt" and "timers rt = b # later"
  shows "later = [] \<and> b = board (component rt) \<and> xIsNext (component rt) \<and> None \<in> set b"
proof -
  from assms have "scheduled (snd (useEffect (component rt))) = b # later"
    by (simp add: timers_current_def)
  then have "snd (useEffect (component rt)) = Some b \<and> later = []"
    by (cases "snd (useEffect (component rt))") (simp_all add: scheduled_def)
  then show ?thesis
    using useEffect_schedules [of "component rt" b] by blast
qed

lemma current_idle:
  assumes "timers_current rt" and "\<not> xIsNext (component rt)"
  shows "timers rt = []"
  using assms by (simp add: timers_current_def useEffect_idle scheduled_def)

lemma step_keeps_current:
  assumes "timers_current rt" and "\<not> is_reset e"
  shows "timers_current (step BatchingRoot rt e)"
proof (cases e)
  case (Click i)
  show ?thesis
  proof (cases "handleClick i (component rt) = component rt")
    case True
    then have "step BatchingRoot rt (Click i) = rt" by (rule step_click_refused)
    with assms(1) show ?thesis unfolding Click by (simp only:)
  next
    case False
    then have "\<not> xIsNext (component rt)"
      using handleClick_moves [of i "component rt"] by blast
    with assms(1) have none: "timers rt = []" by (rule current_idle)
    have "step BatchingRoot rt (Click i) =
      rt\<lparr>component := fst (useEffect (handleClick i (component rt))),
         timers := timers rt @ scheduled (snd (useEffect (handleClick i (component rt))))\<rparr>"
      by (rule step_click_accepted [OF False])
    then show ?thesis
      unfolding Click by (simp add: timers_current_def none useEffect_again del: step.simps)
  qed
next
  case (TimerFires random)
  show ?thesis
  proof (cases "timers rt")
    case Nil
    then have "step BatchingRoot rt (TimerFires random) = rt" by simp
    with assms(1) show ?thesis unfolding TimerFires by (simp only:)
  next
    case (Cons b later)
    from current_timer [OF assms(1) Cons]
    have later: "later = []" and null: "None \<in> set b" by blast+
    have idle: "\<not> xIsNext (fst (useEffect (makeComputerMove b random (component rt))))"
      by (simp add: useEffect_keeps makeComputerMove_turn [OF null])
    show ?thesis
      unfolding TimerFires step_timer_batching [OF Cons null]
      by (simp add: timers_current_def later useEffect_idle [OF idle] scheduled_def)
  qed
next
  case ResetClick
  with assms(2) show ?thesis by (simp add: is_reset_def)
next
  case AnalysisClick
  have "snd (useEffect (analysis_start (component rt))) = snd (useEffect (component rt))"
    by (rule useEffect_snd_cong) (simp_all add: analysis_start_def)
  with assms(1) show ?thesis
    unfolding AnalysisClick by (simp add: timers_current_def Let_def)
next
  case (AnalysisSettles response)
  have "snd (useEffect (analysis_settle response (component rt))) = snd (useEffect (component rt))"
    by (rule useEffect_snd_cong) (simp_all add: analysis_settle_keeps)
  with assms(1) show ?thesis
    unfolding AnalysisSettles by (simp add: timers_current_def)
qed

lemma mover_on_turn:
  assumes "timers_current rt" and "mover rt e = Some m"
  shows "m = side_to_move (component rt) \<and>
         side_to_move (component (step BatchingRoot rt e)) = other_side m"
proof (cases e)
  case (Click i)
  have mv: "handleClick i (component rt) \<noteq> component rt" and m: "m = MarkO"
    using assms(2) unfolding Click by (auto split: if_splits)
  from mv have before: "\<not> xIsNext (component rt)"
    using handleClick_moves [of i "component rt"] by blast
  have "xIsNext (handleClick i (component rt))"
    by (simp only: handleClick_result [OF mv]) simp
  then have after: "xIsNext (component (step BatchingRoot rt (Click i)))"
    by (simp add: step_click_accepted [OF mv] useEffect_keeps del: step.simps)
  from before after show ?thesis
    unfolding Click m by (simp add: side_to_move_def other_side_def del: step.simps)
next
  case (TimerFires random)
  from assms(2) obtain b later where t: "timers rt = b # later" and m: "m = MarkX"
    unfolding TimerFires by (cases "timers rt") (auto split: if_splits)
  from current_timer [OF assms(1) t]
  have before: "xIsNext (component rt)" and null: "None \<in> set b" by blast+
  have after: "\<not> xIsNext (component (step BatchingRoot rt (TimerFires random)))"
    unfolding step_timer_batching [OF t null]
    by (simp add: useEffect_keeps makeComputerMove_turn [OF null])
  from before after show ?thesis
    unfolding TimerFires m by (simp add: side_to_move_def other_side_def del: step.simps)
next
  case ResetClick
  with assms(2) show ?thesis by simp
next
  case AnalysisClick
  with assms(2) show ?thesis by simp
next
  case (AnalysisSettles response)
  with assms(2) show ?thesis by simp
qed

lemma no_mover_same_turn:
  assumes "timers_current rt" and "mover rt e = None" and "\<not> is_reset e"
  shows "side_to_move (component (step BatchingRoot rt e)) = side_to_move (component rt)"
proof (cases e)
  case (Click i)
  have "handleClick i (component rt) = component rt"
    using assms(2) unfolding Click by (auto split: if_splits)
  then have "step BatchingRoot rt (Click i) = rt" by (rule step_click_refused)
  then show ?thesis unfolding Click by (simp only:)
next
  case (TimerFires random)
  show ?thesis
  proof (cases "timers rt")
    case Nil
    then show ?thesis unfolding TimerFires by simp
  next
    case (Cons b later)
    from current_timer [OF assms(1) Cons] have "None \<in> set b" by blast
    then have "length (availableSquares b) \<noteq> 0"
      by (auto simp: availableSquares_filter filter_empty_conv in_set_conv_nth)
    with assms(2) Cons show ?thesis
      unfolding TimerFires by (simp del: length_0_conv)
  qed
next
  case ResetClick
  with assms(3) show ?thesis by (simp add: is_reset_def)
next
  case AnalysisClick
  show ?thesis
    unfolding AnalysisClick by (simp add: side_to_move_def analysis_start_def Let_def)
next
  case (AnalysisSettles response)
  show ?thesis
    unfolding AnalysisSettles by (simp add: side_to_move_def analysis_settle_keeps)
qed

text \<open>
  What does hold: under a batching root, as long as no reset is clicked, at most one timer
  is pending and it is for the present board, so the sides take turns.
\<close>

lemma movers_alternate_without_reset:
  assumes "timers_current rt" and "\<forall>e \<in> set es. \<not> is_reset e"
  shows "alternates (side_to_move (component rt)) (movers BatchingRoot rt es)"
  using assms
proof (induction es arbitrary: rt)
  case Nil
  show ?case by simp
next
  case (Cons e es)
  from Cons.prems have nr: "\<not> is_reset e" by simp
  have cur: "timers_current (step BatchingRoot rt e)"
    by (rule step_keeps_current [OF Cons.prems(1) nr])
  with Cons have IH: "alternates (side_to_move (component (step BatchingRoot rt e)))
      (movers BatchingRoot (step BatchingRoot rt e) es)"
    by simp
  show ?case
  proof (cases "mover rt e")
    case None
    with no_mover_same_turn [OF Cons.prems(1) None nr] IH show ?thesis
      by (simp del: step.simps mover.simps)
  next
    case (Some m)
    with mover_on_turn [OF Cons.prems(1) Some] IH show ?thesis
      by (simp del: step.simps mover.simps)
  qed
qed

lemma first_click_0_move:
  "makeComputerMove first_click_0 random s =
     s\<lparr>board := [Some MarkO, None, None, None, Some MarkX, None, None, None, None],
       xIsNext := False\<rparr>"
proof -
  have avail: "availableSquares first_click_0 = [1, 2, 3, 4, 5, 6, 7, 8]"
    by (simp add: first_click_0_def availableSquares_def enumerate_eq_zip upt_rec)
  have tx: "try_squares MarkX first_click_0 (availableSquares first_click_0) = None"
    unfolding avail by (simp add: first_click_0_def eval_defs)
  have to: "try_squares MarkO first_click_0 (availableSquares first_click_0) = None"
    unfolding avail by (simp add: first_click_0_def eval_defs)
  have centre: "is_null first_click_0 4"
    by (simp add: first_click_0_def is_null_def)
  have best: "bestMove first_click_0 random = Some 4"
    by (rule bestMove_centre [OF tx to centre])
  have upd: "array_set first_click_0 4 (Some MarkX) =
      [Some MarkO, None, None, None, Some MarkX, None, None, None, None]"
    by (simp add: first_click_0_def array_set_def)
  show ?thesis
    unfolding makeComputerMove_def Let_def avail best by (simp add: upd)
qed

lemma first_click_1_move:
  "makeComputerMove first_click_1 random s =
     s\<lparr>board := [None, Some MarkO, None, None, Some MarkX, None, None, None, None],
       xIsNext := False\<rparr>"
proof -
  have avail: "availableSquares first_click_1 = [0, 2, 3, 4, 5, 6, 7, 8]"
    by (simp add: first_click_1_def availableSquares_def enumerate_eq_zip upt_rec)
  have tx: "try_squares MarkX first_click_1 (availableSquares first_click_1) = None"
    unfolding avail by (simp add: first_click_1_def eval_defs)
  have to: "try_squares MarkO first_click_1 (availableSquares first_click_1) = None"
    unfolding avail by (simp add: first_click_1_def eval_defs)
  have centre: "is_null first_click_1 4"
    by (simp add: first_click_1_def is_null_def)
  have best: "bestMove first_click_1 random = Some 4"
    by (rule bestMove_centre [OF tx to centre])
  have upd: "array_set first_click_1 4 (Some MarkX) =
      [None, Some MarkO, None, None, Some MarkX, None, None, None, None]"
    by (simp add: first_click_1_def array_set_def)
  show ?thesis
    unfolding makeComputerMove_def Let_def avail best by (simp add: upd)
qed

lemma no_winner_yet:
  "calculateWinner first_click_0 = None"
  "calculateWinner first_click_1 = None"
  "calculateWinner [Some MarkO, None, None, None, Some MarkX, None, None, None, None] = None"
  "calculateWinner [None, Some MarkO, None, None, Some MarkX, None, None, None, None] = None"
  "calculateWinner (replicate 9 None) = None"
  by (simp_all add: first_click_0_def first_click_1_def calculateWinner_def lines_def cell_at_def)

lemma empty_cells_left:
  "None \<in> set first_click_0"
  "None \<in> set first_click_1"
  "None \<in> set [Some MarkO, None, None, None, Some MarkX, None, None, None, None]"
  "None \<in> set [None, Some MarkO, None, None, Some MarkX, None, None, None, None]"
  "None \<in> set (replicate 9 (None :: cell))"
  by (simp_all add: first_click_0_def first_click_1_def)

lemma click_0_event:
  "click_event 0 initial_state =
     (initial_state\<lparr>board := first_click_0, xIsNext := True\<rparr>, Some first_click_0)"
proof -
  have h: "handleClick 0 initial_state = initial_state\<lparr>board := first_click_0, xIsNext := True\<rparr>"
    by (simp add: handleClick_def initial_state_def cell_at_def array_set_def Let_def
        first_click_0_def numeral_eq_Suc)
  have ne: "initial_state\<lparr>board := first_click_0, xIsNext := True\<rparr> \<noteq> initial_state"
    by (simp add: initial_state_def)
  have e: "useEffect (initial_state\<lparr>board := first_click_0, xIsNext := True\<rparr>) =
      (initial_state\<lparr>board := first_click_0, xIsNext := True\<rparr>, Some first_click_0)"
    by (simp add: useEffect_in_progress no_winner_yet empty_cells_left)
  have "click_event 0 initial_state = useEffect (handleClick 0 initial_state)"
    by (rule click_event_accepted) (simp only: h ne not_False_eq_True)
  then show ?thesis by (simp only: h e)
qed

lemma click_1_event:
  "click_event 1 initial_state =
     (initial_state\<lparr>board := first_click_1, xIsNext := True\<rparr>, Some first_click_1)"
proof -
  have h: "handleClick 1 initial_state = initial_state\<lparr>board := first_click_1, xIsNext := True\<rparr>"
    by (simp add: handleClick_def initial_state_def cell_at_def array_set_def Let_def
        first_click_1_def numeral_eq_Suc)
  have ne: "initial_state\<lparr>board := first_click_1, xIsNext := True\<rparr> \<noteq> initial_state"
    by (simp add: initial_state_def)
  have e: "useEffect (initial_state\<lparr>board := first_click_1, xIsNext := True\<rparr>) =
      (initial_state\<lparr>board := first_click_1, xIsNext := True\<rparr>, Some first_click_1)"
    by (simp add: useEffect_in_progress no_winner_yet empty_cells_left)
  have "click_event 1 initial_state = useEffect (handleClick 1 initial_state)"
    by (rule click_event_accepted) (simp only: h ne not_False_eq_True)
  then show ?thesis by (simp only: h e)
qed

lemma reset_event: "useEffect (resetGame s) = (initial_state, None)"
proof -
  have "resetGame s = initial_state"
    by (simp add: resetGame_def initial_state_def)
  moreover have "useEffect initial_state = (initial_state, None)"
    by (simp add: useEffect_in_progress no_winner_yet empty_cells_left initial_state_def)
  ultimately show ?thesis by simp
qed

lemma stale_timer_event:
  "timer_event r first_click_0 random (initial_state\<lparr>board := first_click_1, xIsNext := True\<rparr>) =
     (initial_state\<lparr>board := [Some MarkO, None, None, None, Some MarkX, None, None, None, None]\<rparr>,
      legacy_extra r)"
proof -
  have avail: "length (availableSquares first_click_0) \<noteq> 0"
    by (simp add: first_click_0_def availableSquares_def enumerate_eq_zip upt_rec)
  show ?thesis
  proof (cases r)
    case BatchingRoot
    then show ?thesis
      unfolding timer_event_def first_click_0_move
      using avail
      by (simp add: useEffect_in_progress no_winner_yet empty_cells_left scheduled_def
          legacy_extra_def initial_state_def)
  next
    case LegacyRoot
    then show ?thesis
      unfolding timer_event_def first_click_0_move
      using avail
      by (simp add: useEffect_in_progress no_winner_yet empty_cells_left scheduled_def
          legacy_extra_def initial_state_def Let_def)
  qed
qed

lemma second_timer_event:
  "timer_event r first_click_1 random
     (initial_state\<lparr>board := [Some MarkO, None, None, None, Some MarkX, None, None, None, None]\<rparr>) =
     (initial_state\<lparr>board := [None, Some MarkO, None, None, Some MarkX, None, None, None, None]\<rparr>,
      [])"
proof -
  have avail: "length (availableSquares first_click_1) \<noteq> 0"
    by (simp add: first_click_1_def availableSquares_def enumerate_eq_zip upt_rec)
  show ?thesis
  proof (cases r)
    case BatchingRoot
    then show ?thesis
      unfolding timer_event_def first_click_1_move
      using avail
      by (simp add: useEffect_in_progress no_winner_yet empty_cells_left scheduled_def
          initial_state_def)
  next
    case LegacyRoot
    then show ?thesis
      unfolding timer_event_def first_click_1_move
      using avail
      by (simp add: useEffect_in_progress no_winner_yet empty_cells_left scheduled_def
          initial_state_def Let_def)
  qed
qed

lemma stale_step_1:
  "step r initial_runtime (Click 0) =
     \<lparr>component = initial_state\<lparr>board := first_click_0, xIsNext := True\<rparr>,
      timers = [first_click_0], requests = 0\<rparr>"
  by (simp add: initial_runtime_def click_0_event scheduled_def)

lemma stale_step_2:
  "step r \<lparr>component = initial_state\<lparr>board := first_click_0, xIsNext := True\<rparr>,
      timers = [first_click_0], requests = 0\<rparr> ResetClick =
     \<lparr>component = initial_state, timers = [first_click_0], requests = 0\<rparr>"
  by (simp add: reset_event scheduled_def)

lemma stale_step_3:
  "step r \<lparr>component = initial_state, timers = [first_click_0], requests = 0\<rparr> (Click 1) =
     \<lparr>component = initial_state\<lparr>board := first_click_1, xIsNext := True\<rparr>,
      timers = [first_click_0, first_click_1], requests = 0\<rparr>"
  by (simp add: click_1_event scheduled_def del: One_nat_def)

lemma stale_run_3:
  "run r initial_runtime [Click 0, ResetClick, Click 1] =
     \<lparr>component = initial_state\<lparr>board := first_click_1, xIsNext := True\<rparr>,
      timers = [first_click_0, first_click_1],
      requests = 0\<rparr>"
  by (simp only: run.simps stale_step_1 stale_step_2 stale_step_3)

lemma stale_movers:
  "mover initial_runtime (Click 0) = Some MarkO"
  "mover \<lparr>component = initial_state\<lparr>board := first_click_0, xIsNext := True\<rparr>,
      timers = [first_click_0], requests = 0\<rparr> ResetClick = None"
  "mover \<lparr>component = initial_state, timers = [first_click_0], requests = 0\<rparr> (Click 1)
     = Some MarkO"
  "mover \<lparr>component = initial_state\<lparr>board := first_click_1, xIsNext := True\<rparr>,
      timers = [first_click_0, first_click_1], requests = 0\<rparr> (TimerFires random1)
     = Some MarkX"
  "mover \<lparr>component =
        initial_state\<lparr>board := [Some MarkO, None, None, None, Some MarkX, None, None, None, None]\<rparr>,
      timers = first_click_1 # legacy_extra r, requests = 0\<rparr> (TimerFires random2)
     = Some MarkX"
proof -
  have m0: "handleClick 0 initial_state \<noteq> initial_state"
    unfolding handleClick_moves by (simp add: initial_state_def cell_at_def)
  have m1: "handleClick 1 initial_state \<noteq> initial_state"
    unfolding handleClick_moves by (simp add: initial_state_def cell_at_def)
  have a0: "length (availableSquares first_click_0) \<noteq> 0"
    by (simp add: first_click_0_def availableSquares_def enumerate_eq_zip upt_rec)
  have a1: "length (availableSquares first_click_1) \<noteq> 0"
    by (simp add: first_click_1_def availableSquares_def enumerate_eq_zip upt_rec)
  show "mover initial_runtime (Click 0) = Some MarkO"
    using m0 by (simp only: mover.simps initial_runtime_def runtime.simps if_False)
  show "mover \<lparr>component = initial_state\<lparr>board := first_click_0, xIsNext := True\<rparr>,
      timers = [first_click_0], requests = 0\<rparr> ResetClick = None"
    by simp
  show "mover \<lparr>component = initial_state, timers = [first_click_0], requests = 0\<rparr> (Click 1)
     = Some MarkO"
    using m1 by (simp only: mover.simps runtime.simps if_False)
  show "mover \<lparr>component = initial_state\<lparr>board := first_click_1, xIsNext := True\<rparr>,
      timers = [first_click_0, first_click_1], requests = 0\<rparr> (TimerFires random1)
     = Some MarkX"
    using a0 by (simp del: length_0_conv)
  show "mover \<lparr>component =
        initial_state\<lparr>board := [Some MarkO, None, None, None, Some MarkX, None, None, None, None]\<rparr>,
      timers = first_click_1 # legacy_extra r, requests = 0\<rparr> (TimerFires random2)
     = Some MarkX"
    using a1 by (simp del: length_0_conv)
qed

lemma stale_step_4:
  "step r \<lparr>component = initial_state\<lparr>board := first_click_1, xIsNext := True\<rparr>,
      timers = [first_click_0, first_click_1], requests = 0\<rparr> (TimerFires random1) =
     \<lparr>component =
        initial_state\<lparr>board := [Some MarkO, None, None, None, Some MarkX, None, None, None, None]\<rparr>,
      timers = first_click_1 # legacy_extra r,
      requests = 0\<rparr>"
  by (simp add: stale_timer_event)

lemma stale_step_5:
  "step r \<lparr>component =
        initial_state\<lparr>board := [Some MarkO, None, None, None, Some MarkX, None, None, None, None]\<rparr>,
      timers = first_click_1 # legacy_extra r, requests = 0\<rparr> (TimerFires random2) =
     \<lparr>component =
        initial_state\<lparr>board := [None, Some MarkO, None, None, Some MarkX, None, None, None, None]\<rparr>,
      timers = legacy_extra r,
      requests = 0\<rparr>"
  by (simp add: second_timer_event)

text \<open>
  Under a legacy root no reset is needed: the effect that runs between the two setters of
  the computer's move still sees the computer's turn and sets a second timer, so the
  computer moves twice after one click.
\<close>

lemma legacy_root_moves_twice:
  "movers LegacyRoot initial_runtime [Click 0, TimerFires random1, TimerFires random2]
     = [MarkO, MarkX, MarkX]
   \<and> board (component
        (run LegacyRoot initial_runtime [Click 0, TimerFires random1, TimerFires random2]))
      = [Some MarkO, None, Some MarkX, None, Some MarkX, None, None, None, None]"
proof -
  let ?b = "[Some MarkO, None, None, None, Some MarkX, None, None, None, None]"
  let ?b2 = "[Some MarkO, None, Some MarkX, None, Some MarkX, None, None, None, None]"
  let ?rt1 = "\<lparr>component = initial_state\<lparr>board := first_click_0, xIsNext := True\<rparr>,
      timers = [first_click_0], requests = 0\<rparr>"
  let ?rt2 = "\<lparr>component = initial_state\<lparr>board := ?b\<rparr>, timers = [?b], requests = 0\<rparr>"
  let ?rt3 = "\<lparr>component = initial_state\<lparr>board := ?b2\<rparr>, timers = [], requests = 0\<rparr>"
  have avail0: "availableSquares first_click_0 \<noteq> []"
    by (simp add: first_click_0_def availableSquares_def enumerate_eq_zip upt_rec)
  have avail: "availableSquares ?b = [1, 2, 3, 5, 6, 7, 8]"
    by (simp add: availableSquares_def enumerate_eq_zip upt_rec)
  have tx: "try_squares MarkX ?b [1, 2, 3, 5, 6, 7, 8] = None"
    by (simp add: eval_defs)
  have to: "try_squares MarkO ?b [1, 2, 3, 5, 6, 7, 8] = None"
    by (simp add: eval_defs)
  have best: "bestMove ?b random2 = Some 2"
    unfolding bestMove_def Let_def avail tx to by (simp add: is_null_def)
  have upd: "array_set ?b 2 (Some MarkX) = ?b2"
    by (simp add: array_set_def)
  have move: "makeComputerMove ?b random2 s = s\<lparr>board := ?b2, xIsNext := False\<rparr>" for s
    unfolding makeComputerMove_def Let_def avail best by (simp add: upd)
  have w2: "calculateWinner ?b2 = None"
    by (simp add: calculateWinner_def lines_def cell_at_def)
  have t1: "timer_event LegacyRoot first_click_0 random1
      (initial_state\<lparr>board := first_click_0, xIsNext := True\<rparr>) =
      (initial_state\<lparr>board := ?b\<rparr>, [?b])"
    unfolding timer_event_def first_click_0_move
    using avail0
    by (simp add: useEffect_in_progress no_winner_yet empty_cells_left scheduled_def
        initial_state_def Let_def)
  have t2: "timer_event LegacyRoot ?b random2 (initial_state\<lparr>board := ?b\<rparr>) =
      (initial_state\<lparr>board := ?b2\<rparr>, [])"
    unfolding timer_event_def move
    by (simp add: avail useEffect_in_progress w2 scheduled_def initial_state_def Let_def)
  have s2: "step LegacyRoot ?rt1 (TimerFires random1) = ?rt2"
    by (simp add: t1)
  have s3: "step LegacyRoot ?rt2 (TimerFires random2) = ?rt3"
    by (simp add: t2)
  have m2: "mover ?rt1 (TimerFires random1) = Some MarkX"
    using avail0 by simp
  have m3: "mover ?rt2 (TimerFires random2) = Some MarkX"
    by (simp add: avail)
  have a: "movers LegacyRoot initial_runtime [Click 0, TimerFires random1, TimerFires random2]
     = [MarkO, MarkX, MarkX]"
    by (simp only: movers.simps stale_step_1 s2 s3 stale_movers m2 m3 option.case append.simps)
  have b: "run LegacyRoot initial_runtime [Click 0, TimerFires random1, TimerFires random2] = ?rt3"
    by (simp only: run.simps stale_step_1 s2 s3)
  show ?thesis
    unfolding b using a by simp
qed

lemma run_snoc: "run r rt (es @ [e]) = step r (run r rt es) e"
  by (induction es arbitrary: rt) simp_all

text \<open>
  C5. The sides do not always take turns. Click square 0, click Reset, click square 1, all
  before the first timer fires: both timers are then pending, the first still holding the
  board from before the reset. The first puts \<open>'X'\<close> on that board and gives the turn to
  \<open>'O'\<close>; the second then puts \<open>'X'\<close> on the board of the second click, on \<open>'O'\<close>'s turn.
  The movers of the five events are \<open>'O'\<close>, \<open>'O'\<close>, \<open>'X'\<close>, \<open>'X'\<close>, under either kind of
  root and whatever \<open>Math.random()\<close> returns.
\<close>

theorem stale_timers_move_twice:
  "timers (run r initial_runtime [Click 0, ResetClick, Click 1]) = [first_click_0, first_click_1]
   \<and> board (component (run r initial_runtime [Click 0, ResetClick, Click 1])) = first_click_1
   \<and> board (component
        (run r initial_runtime [Click 0, ResetClick, Click 1, TimerFires random1]))
      = [Some MarkO, None, None, None, Some MarkX, None, None, None, None]
   \<and> side_to_move (component
        (run r initial_runtime [Click 0, ResetClick, Click 1, TimerFires random1]))
      = MarkO
   \<and> mover (run r initial_runtime [Click 0, ResetClick, Click 1, TimerFires random1])
        (TimerFires random2)
      = Some MarkX
   \<and> board (component
        (run r initial_runtime
          [Click 0, ResetClick, Click 1, TimerFires random1, TimerFires random2]))
      = [None, Some MarkO, None, None, Some MarkX, None, None, None, None]
   \<and> movers r initial_runtime
        [Click 0, ResetClick, Click 1, TimerFires random1, TimerFires random2]
      = [MarkO, MarkO, MarkX, MarkX]"
proof -
  let ?rt3 = "\<lparr>component = initial_state\<lparr>board := first_click_1, xIsNext := True\<rparr>,
      timers = [first_click_0, first_click_1], requests = 0\<rparr>"
  let ?rt4 = "\<lparr>component =
        initial_state\<lparr>board := [Some MarkO, None, None, None, Some MarkX, None, None, None, None]\<rparr>,
      timers = first_click_1 # legacy_extra r, requests = 0\<rparr>"
  let ?rt5 = "\<lparr>component =
        initial_state\<lparr>board := [None, Some MarkO, None, None, Some MarkX, None, None, None, None]\<rparr>,
      timers = legacy_extra r, requests = 0\<rparr>"
  have r3: "run r initial_runtime [Click 0, ResetClick, Click 1] = ?rt3"
    by (rule stale_run_3)
  have r4: "run r initial_runtime [Click 0, ResetClick, Click 1, TimerFires random1] = ?rt4"
    using run_snoc [of r initial_runtime "[Click 0, ResetClick, Click 1]" "TimerFires random1"]
    by (simp only: append.simps r3 stale_step_4)
  have r5: "run r initial_runtime
      [Click 0, ResetClick, Click 1, TimerFires random1, TimerFires random2] = ?rt5"
    using run_snoc [of r initial_runtime "[Click 0, ResetClick, Click 1, TimerFires random1]"
        "TimerFires random2"]
    by (simp only: append.simps r4 stale_step_5)
  have a1: "timers (run r initial_runtime [Click 0, ResetClick, Click 1])
      = [first_click_0, first_click_1]"
    unfolding r3 by simp
  have a2: "board (component (run r initial_runtime [Click 0, ResetClick, Click 1])) = first_click_1"
    unfolding r3 by simp
  have a3: "board (component
        (run r initial_runtime [Click 0, ResetClick, Click 1, TimerFires random1]))
      = [Some MarkO, None, None, None, Some MarkX, None, None, None, None]"
    unfolding r4 by simp
  have a4: "side_to_move (component
        (run r initial_runtime [Click 0, ResetClick, Click 1, TimerFires random1]))
      = MarkO"
    unfolding r4 by (simp add: side_to_move_def initial_state_def)
  have a5: "mover (run r initial_runtime [Click 0, ResetClick, Click 1, TimerFires random1])
        (TimerFires random2)
      = Some MarkX"
    unfolding r4 by (rule stale_movers)
  have a6: "board (component
        (run r initial_runtime
          [Click 0, ResetClick, Click 1, TimerFires random1, TimerFires random2]))
      = [None, Some MarkO, None, None, Some MarkX, None, None, None, None]"
    unfolding r5 by simp
  have a7: "movers r initial_runtime
        [Click 0, ResetClick, Click 1, TimerFires random1, TimerFires random2]
      = [MarkO, MarkO, MarkX, MarkX]"
    by (simp only: movers.simps stale_step_1 stale_step_2 stale_step_3 stale_step_4
        stale_step_5 stale_movers option.case append.simps)
  from a1 a2 a3 a4 a5 a6 a7 show ?thesis by (intro conjI)
qed

section \<open>Reset\<close>



section \<open>The analysis call\<close>

lemma no_usable_iff: "no_usable_candidate result \<longleftrightarrow> first_part result = None"
  by (auto simp: no_usable_candidate_def first_part_def missing_or_empty_def
      split: option.splits list.splits)

lemma analysis_settle_frame: "frame_kept s (analysis_settle r s) \<and> \<not> isLoadingAnalysis (analysis_settle r s)"
  by (auto simp: frame_kept_def analysis_settle_def Let_def
      split: response.splits option.splits list.splits)

lemma analysis_start_frame: "frame_kept s (analysis_start s)"
  by (simp add: frame_kept_def analysis_start_def)

lemma analysis_thrown: "gameAnalysis (analysis_settle Thrown s) = Some failed_message"
  by (simp add: analysis_settle_def)

lemma analysis_unusable:
  "first_part result = None \<Longrightarrow> gameAnalysis (analysis_settle (Parsed result) s) = Some unexpected_message"
  by (auto simp: analysis_settle_def first_part_def Let_def split: option.splits list.splits)

lemma analysis_text:
  "first_part result = Some p \<Longrightarrow> gameAnalysis (analysis_settle (Parsed result) s) = part_text p"
  by (auto simp: analysis_settle_def first_part_def Let_def split: option.splits list.splits)

lemma shown_settled:
  "gameAnalysis (analysis_settle r s) = Some t \<Longrightarrow> t \<noteq> [] \<Longrightarrow> shown_analysis (analysis_settle r s) = Some t"
  using analysis_settle_frame [of s r] by (simp add: shown_analysis_def)

text \<open>
  C10. For every response, \<open>getLLMGameAnalysis\<close> ends with the loading flag cleared. When
  the request throws it stores and shows the fixed failure message; when candidates, the
  first candidate's content or its parts are missing or empty it stores and shows the
  fixed unexpected-response message; otherwise it stores the \<open>text\<close> of the first part of
  the first candidate, and shows it when it is a non-empty string. Board, turn, winner,
  draw flag and winning line are the same before and after, at the start of the call and
  when it settles.
\<close>

theorem analysis_outcomes:
  "gameAnalysis (getLLMGameAnalysis Thrown s) = Some failed_message
   \<and> shown_analysis (getLLMGameAnalysis Thrown s) = Some failed_message
   \<and> (no_usable_candidate result \<longrightarrow>
        gameAnalysis (getLLMGameAnalysis (Parsed result) s) = Some unexpected_message \<and>
        shown_analysis (getLLMGameAnalysis (Parsed result) s) = Some unexpected_message)
   \<and> (\<not> no_usable_candidate result \<longrightarrow>
        (\<exists>p. first_part result = Some p \<and>
             gameAnalysis (getLLMGameAnalysis (Parsed result) s) = part_text p))
   \<and> (first_part result = Some p \<and> part_text p = Some t \<and> t \<noteq> [] \<longrightarrow>
        shown_analysis (getLLMGameAnalysis (Parsed result) s) = Some t)
   \<and> frame_kept s (analysis_start s)
   \<and> frame_kept s (analysis_settle r s)
   \<and> frame_kept s (getLLMGameAnalysis r s)
   \<and> \<not> isLoadingAnalysis (getLLMGameAnalysis r s)
   \<and> failed_message \<noteq> [] \<and> unexpected_message \<noteq> []"
proof -
  let ?s = "analysis_start s"
  have msgs: "failed_message \<noteq> []" "unexpected_message \<noteq> []"
    by (simp_all add: failed_message_def unexpected_message_def)
  have thrown: "gameAnalysis (getLLMGameAnalysis Thrown s) = Some failed_message"
    by (simp add: getLLMGameAnalysis_def analysis_thrown)
  then have thrown_shown: "shown_analysis (getLLMGameAnalysis Thrown s) = Some failed_message"
    unfolding getLLMGameAnalysis_def by (rule shown_settled) (rule msgs)
  have unusable: "no_usable_candidate result \<longrightarrow>
        gameAnalysis (getLLMGameAnalysis (Parsed result) s) = Some unexpected_message \<and>
        shown_analysis (getLLMGameAnalysis (Parsed result) s) = Some unexpected_message"
  proof
    assume "no_usable_candidate result"
    then have "first_part result = None" by (simp add: no_usable_iff)
    then have g: "gameAnalysis (analysis_settle (Parsed result) ?s) = Some unexpected_message"
      by (rule analysis_unusable)
    from shown_settled [OF g msgs(2)] g
    show "gameAnalysis (getLLMGameAnalysis (Parsed result) s) = Some unexpected_message \<and>
        shown_analysis (getLLMGameAnalysis (Parsed result) s) = Some unexpected_message"
      by (simp add: getLLMGameAnalysis_def)
  qed
  have usable: "\<not> no_usable_candidate result \<longrightarrow>
        (\<exists>p. first_part result = Some p \<and>
             gameAnalysis (getLLMGameAnalysis (Parsed result) s) = part_text p)"
    by (auto simp: no_usable_iff getLLMGameAnalysis_def analysis_text)
  have shown: "first_part result = Some p \<and> part_text p = Some t \<and> t \<noteq> [] \<longrightarrow>
        shown_analysis (getLLMGameAnalysis (Parsed result) s) = Some t"
  proof
    assume a: "first_part result = Some p \<and> part_text p = Some t \<and> t \<noteq> []"
    then have "gameAnalysis (analysis_settle (Parsed result) ?s) = Some t"
      by (simp add: analysis_text)
    with a show "shown_analysis (getLLMGameAnalysis (Parsed result) s) = Some t"
      by (simp add: getLLMGameAnalysis_def shown_settled)
  qed
  have f1: "frame_kept s (analysis_start s)" by (rule analysis_start_frame)
  have f2: "frame_kept s (analysis_settle r s)" by (simp add: analysis_settle_frame)
  have f3: "frame_kept s (getLLMGameAnalysis r s)"
    using analysis_start_frame [of s] analysis_settle_frame [of ?s r]
    by (simp add: getLLMGameAnalysis_def frame_kept_def)
  have l: "\<not> isLoadingAnalysis (getLLMGameAnalysis r s)"
    by (simp add: getLLMGameAnalysis_def analysis_settle_frame)
  from thrown thrown_shown unusable usable shown f1 f2 f3 l msgs show ?thesis
    by (intro conjI)
qed

theorem analysis_outcomes_witness:
  "no_usable_candidate error_response
   \<and> shown_analysis (getLLMGameAnalysis (Parsed error_response) initial_state)
       = Some ''Could not get analysis. Unexpected response from LLM.''
   \<and> first_part text_response = Some \<lparr>part_text = Some ''Well played.''\<rparr>
   \<and> shown_analysis (getLLMGameAnalysis (Parsed text_response) initial_state) = Some ''Well played.''"
proof -
  have a: "no_usable_candidate error_response"
    by (simp add: no_usable_candidate_def error_response_def missing_or_empty_def)
  have b: "first_part text_response = Some \<lparr>part_text = Some ''Well played.''\<rparr>"
    by (simp add: first_part_def text_response_def)
  from analysis_outcomes [of initial_state error_response] a
  have c: "shown_analysis (getLLMGameAnalysis (Parsed error_response) initial_state)
       = Some ''Could not get analysis. Unexpected response from LLM.''"
    by (simp add: unexpected_message_def)
  from analysis_outcomes [of initial_state text_response "\<lparr>part_text = Some ''Well played.''\<rparr>"
      "''Well played.''"] b
  have d: "shown_analysis (getLLMGameAnalysis (Parsed text_response) initial_state) = Some ''Well played.''"
    by simp
  from a b c d show ?thesis by simp
qed

end
